theory Spec2Isabelle
  imports Main "HOL-Library.Multiset"
begin

section \<open>Data model\<close>

text \<open>
  Modelled from the spec: the enumerations of \<^verbatim>\<open>vk_parser/generals/enums.py\<close>, a file
  that is not part of the excerpt. The members and their order are those of sections 3
  and 6 of the specification; both are string enumerations whose value is the member name.
\<close>

datatype RequestStatus = PENDING | PROCESSING | SUCCESSFUL | EMPTY | FAILED

text \<open>
  Modelled from the spec: \<^verbatim>\<open>ParserTypes\<close> of the same absent file, with the two
  values of section 6.
\<close>

datatype ParserTypes = VK_SIMPLE_DOWNLOAD | VK_DOWNLOAD_AND_PARSED_POSTS

text \<open>
  Modelled from the spec: the order in which \<^verbatim>\<open>for pt in ParserTypes\<close> visits the
  members of the absent enumeration, taken as the order in which sections 3 and 6 list
  them.
\<close>

definition ParserTypes_members :: "ParserTypes list" where
  "ParserTypes_members = [VK_SIMPLE_DOWNLOAD, VK_DOWNLOAD_AND_PARSED_POSTS]"

text \<open>
  Modelled from the spec: the string value of a member of the absent enumeration, which
  is the tag that section 3 writes in the \<^verbatim>\<open>parser_type\<close> field.
\<close>

fun ParserTypes_value :: "ParserTypes \<Rightarrow> string" where
  "ParserTypes_value VK_SIMPLE_DOWNLOAD = ''VK_SIMPLE_DOWNLOAD''"
| "ParserTypes_value VK_DOWNLOAD_AND_PARSED_POSTS = ''VK_DOWNLOAD_AND_PARSED_POSTS''"

text \<open>Timestamps are points on the integer time line.\<close>

type_synonym datetime = int

text \<open>
  The exceptions that can leave a store method: \<^verbatim>\<open>DBAPIError\<close>, in which the ORM wraps
  the errors of the database driver; \<^verbatim>\<open>ConnectionRefusedError\<close>, which the connection
  attempt raises when the server does not answer and which is not a \<^verbatim>\<open>DBAPIError\<close>;
  the two exceptions of \<^verbatim>\<open>ScalarResult.one()\<close>; and pydantic's \<^verbatim>\<open>ValidationError\<close>.
\<close>

datatype error =
  DBAPIError | ConnectionRefusedError | NoResultFound | MultipleResultsFound | ValidationError

text \<open>
  The input payload is a \<^verbatim>\<open>Mapping[str, Any]\<close> stored in a JSON column. Its values are
  JSON scalars; the mapping is kept as an association list read with \<open>map_of\<close>.
\<close>

datatype jv = JNull | JInt int | JStr string

type_synonym payload = "(string \<times> jv) list"

text \<open>
  \<^verbatim>\<open>SimpleVkInputData\<close> and \<^verbatim>\<open>ParsePostsVkInputData\<close>: the two members of the union
  in \<^verbatim>\<open>DetailParserRequest.input_data\<close>. Each carries its own \<^verbatim>\<open>parser_type\<close> field.
\<close>

datatype InputData =
    SimpleVkInputData (parser_type: ParserTypes) (group_url: string) (max_age: int)
  | ParsePostsVkInputData (parser_type: ParserTypes) (group_url: string)
      (posted_up_to: datetime) (max_age: int)

record UserStat =
  vk_id :: int
  count :: int

record ResultData =
  message :: string
  user_stat :: "UserStat list"

record DetailParserRequest =
  request_id :: int
  created_at :: datetime
  updated_at :: datetime
  status :: RequestStatus
  input_data :: InputData
  result_data :: "ResultData option"
  finished_at :: "datetime option"
  error_message :: "string option"

record ParserRequest =
  summary_id :: int
  summary_created_at :: datetime
  summary_updated_at :: datetime
  summary_status :: RequestStatus
  summary_finished_at :: "datetime option"
  summary_error_message :: "string option"

text \<open>
  Modelled from the spec: the table row \<^verbatim>\<open>ParserRequestDb\<close> of
  \<^verbatim>\<open>vk_parser/db/models/parser_request.py\<close>, which is not part of the excerpt. The
  columns are those of section 3. \<^verbatim>\<open>result_data\<close> is a JSON column that the store
  only ever writes from a \<^verbatim>\<open>Result\<close> dump or from the literal of
  \<^verbatim>\<open>save_empty_result\<close>, so it is kept in its typed form.
\<close>

record ParserRequestDb =
  row_id :: int
  row_created_at :: datetime
  row_updated_at :: datetime
  row_status :: RequestStatus
  row_input_data :: payload
  row_result_data :: "ResultData option"
  row_finished_at :: "datetime option"
  row_error_message :: "string option"

text \<open>
  The database behind a session factory: the rows of the table in the order of their
  insertion, the next value of the id sequence, and the warnings written to the module's
  logger. The order in which a query without \<^verbatim>\<open>ORDER BY\<close> returns the rows is not
  this order: the database chooses it for each query.
\<close>

record store =
  rows :: "ParserRequestDb list"
  next_id :: int
  warnings :: "string list"

text \<open>
  What a call depends on besides its arguments: the database clock, the exception that
  the execution of the statement or its commit raises in this call, if any, and
  pydantic's field validators for \<^verbatim>\<open>HttpUrl\<close>, \<^verbatim>\<open>datetime\<close> and \<^verbatim>\<open>int\<close>.
\<close>

record env =
  now :: datetime
  db_raises :: "error option"
  as_url :: "jv \<Rightarrow> string option"
  as_datetime :: "jv \<Rightarrow> datetime option"
  as_int :: "jv \<Rightarrow> int option"

section \<open>Domain models: validation\<close>

definition tag_of :: "jv \<Rightarrow> ParserTypes option" where
  "tag_of v =
     (case v of
        JStr s \<Rightarrow>
          if s = ParserTypes_value VK_DOWNLOAD_AND_PARSED_POSTS
          then Some VK_DOWNLOAD_AND_PARSED_POSTS
          else if s = ParserTypes_value VK_SIMPLE_DOWNLOAD then Some VK_SIMPLE_DOWNLOAD
          else None
      | _ \<Rightarrow> None)"

definition validate_simple :: "env \<Rightarrow> payload \<Rightarrow> error + InputData" where
  "validate_simple e p =
     (case (map_of p ''group_url'', map_of p ''max_age'') of
        (Some u, Some a) \<Rightarrow>
          (case (as_url e u, as_int e a) of
             (Some u', Some a') \<Rightarrow> Inr (SimpleVkInputData VK_SIMPLE_DOWNLOAD u' a')
           | _ \<Rightarrow> Inl ValidationError)
      | _ \<Rightarrow> Inl ValidationError)"

definition validate_parse_posts :: "env \<Rightarrow> payload \<Rightarrow> error + InputData" where
  "validate_parse_posts e p =
     (case (map_of p ''group_url'', map_of p ''posted_up_to'', map_of p ''max_age'') of
        (Some u, Some t, Some a) \<Rightarrow>
          (case (as_url e u, as_datetime e t, as_int e a) of
             (Some u', Some t', Some a') \<Rightarrow>
               Inr (ParsePostsVkInputData VK_DOWNLOAD_AND_PARSED_POSTS u' t' a')
           | _ \<Rightarrow> Inl ValidationError)
      | _ \<Rightarrow> Inl ValidationError)"

text \<open>
  The union is discriminated by \<^verbatim>\<open>parser_type\<close>: the tag is read first and selects the
  member that validates the rest; a missing or unknown tag is a validation error.
\<close>

definition validate_input_data :: "env \<Rightarrow> payload \<Rightarrow> error + InputData" where
  "validate_input_data e p =
     (case map_of p ''parser_type'' of
        None \<Rightarrow> Inl ValidationError
      | Some v \<Rightarrow>
          (case tag_of v of
             None \<Rightarrow> Inl ValidationError
           | Some VK_DOWNLOAD_AND_PARSED_POSTS \<Rightarrow> validate_parse_posts e p
           | Some VK_SIMPLE_DOWNLOAD \<Rightarrow> validate_simple e p))"

text \<open>\<^verbatim>\<open>DetailParserRequest.model_validate(obj)\<close> on a row, read by attribute.\<close>

definition detail_model_validate :: "env \<Rightarrow> ParserRequestDb \<Rightarrow> error + DetailParserRequest" where
  "detail_model_validate e r =
     (case validate_input_data e (row_input_data r) of
        Inl err \<Rightarrow> Inl err
      | Inr i \<Rightarrow>
          Inr \<lparr> request_id = row_id r, created_at = row_created_at r,
                updated_at = row_updated_at r, status = row_status r, input_data = i,
                result_data = row_result_data r, finished_at = row_finished_at r,
                error_message = row_error_message r \<rparr>)"

text \<open>The property \<^verbatim>\<open>DetailParserRequest.parser_type\<close>.\<close>

definition detail_parser_type :: "DetailParserRequest \<Rightarrow> ParserTypes" where
  "detail_parser_type d = parser_type (input_data d)"

text \<open>\<^verbatim>\<open>ParserRequest.model_validate(obj)\<close>: the summary has no field that can fail.\<close>

definition summary_model_validate :: "ParserRequestDb \<Rightarrow> error + ParserRequest" where
  "summary_model_validate r =
     Inr \<lparr> summary_id = row_id r, summary_created_at = row_created_at r,
           summary_updated_at = row_updated_at r, summary_status = row_status r,
           summary_finished_at = row_finished_at r,
           summary_error_message = row_error_message r \<rparr>"

section \<open>Request store\<close>

text \<open>\<^verbatim>\<open>ScalarResult.one()\<close>: exactly one row, or an exception.\<close>

definition one :: "'a list \<Rightarrow> error + 'a" where
  "one xs = (case xs of [] \<Rightarrow> Inl NoResultFound | [x] \<Rightarrow> Inr x | _ \<Rightarrow> Inl MultipleResultsFound)"

text \<open>\<^verbatim>\<open>ScalarResult.first()\<close>: the first row, or \<^verbatim>\<open>None\<close>.\<close>

definition first :: "'a list \<Rightarrow> 'a option" where
  "first xs = (case xs of [] \<Rightarrow> None | x # _ \<Rightarrow> Some x)"

text \<open>
  \<^verbatim>\<open>UPDATE ... WHERE id = :id SET ...\<close>: every matching row is rewritten by \<open>f\<close> and
  gets the clock's time in \<^verbatim>\<open>updated_at\<close>, which the storage manages on every mutation.
\<close>

definition update_where_id ::
  "datetime \<Rightarrow> int \<Rightarrow> (ParserRequestDb \<Rightarrow> ParserRequestDb) \<Rightarrow> ParserRequestDb list \<Rightarrow> ParserRequestDb list" where
  "update_where_id t i f rs =
     map (\<lambda>r. if row_id r = i then (f r)\<lparr>row_updated_at := t\<rparr> else r) rs"

definition log_warning :: "string \<Rightarrow> store \<Rightarrow> store" where
  "log_warning m s = s\<lparr>warnings := warnings s @ [m]\<rparr>"

text \<open>
  \<^verbatim>\<open>get_detail\<close>: a point lookup with \<^verbatim>\<open>first()\<close>; no row gives \<^verbatim>\<open>None\<close>. The method
  has no \<^verbatim>\<open>try\<close>, so whatever the execution raises leaves it as an exception.
\<close>

definition get_detail :: "env \<Rightarrow> store \<Rightarrow> int \<Rightarrow> error + DetailParserRequest option" where
  "get_detail e s i =
     (case db_raises e of
        Some err \<Rightarrow> Inl err
      | None \<Rightarrow>
          (case first (filter (\<lambda>r. row_id r = i) (rows s)) of
             None \<Rightarrow> Inr None
           | Some r \<Rightarrow> map_sum id Some (detail_model_validate e r)))"

text \<open>
  \<^verbatim>\<open>update_status\<close>: the statement and its commit are inside the \<^verbatim>\<open>try\<close>, and so is
  \<^verbatim>\<open>result.one()\<close> with the validation. The handler is \<^verbatim>\<open>except DBAPIError\<close>: it
  logs and the method returns \<^verbatim>\<open>None\<close>; an exception of another class passes it. A
  failed transaction leaves the table as it was.
\<close>

definition update_status ::
  "env \<Rightarrow> store \<Rightarrow> int \<Rightarrow> RequestStatus \<Rightarrow> (error + DetailParserRequest option) \<times> store" where
  "update_status e s i st =
     (case db_raises e of
        Some err \<Rightarrow>
          if err = DBAPIError then (Inr None, log_warning ''Error updating'' s)
          else (Inl err, s)
      | None \<Rightarrow>
          let rs = update_where_id (now e) i (\<lambda>r. r\<lparr>row_status := st\<rparr>) (rows s);
              s' = s\<lparr>rows := rs\<rparr>
          in case one (filter (\<lambda>r. row_id r = i) rs) of
               Inl err \<Rightarrow> (Inl err, s')
             | Inr r \<Rightarrow> (map_sum id Some (detail_model_validate e r), s'))"

text \<open>
  Modelled from the spec: the column defaults of the absent table declaration. A new row
  starts in the initial non-terminal state, with no result, no end time and no error.
\<close>

definition default_status :: RequestStatus where
  "default_status = PENDING"

text \<open>
  \<^verbatim>\<open>create\<close>: \<^verbatim>\<open>INSERT ... RETURNING\<close> and the commit are inside the \<^verbatim>\<open>try\<close>, whose
  handler is \<^verbatim>\<open>except DBAPIError\<close> (log, return \<^verbatim>\<open>None\<close>); an exception of another
  class passes it, and neither the decorator nor the method has another handler. The
  validation of the returned row is after the \<^verbatim>\<open>try\<close>. The id comes from the table's
  sequence.
\<close>

definition create ::
  "env \<Rightarrow> store \<Rightarrow> payload \<Rightarrow> (error + DetailParserRequest option) \<times> store" where
  "create e s p =
     (case db_raises e of
        Some err \<Rightarrow>
          if err = DBAPIError
          then (Inr None, log_warning ''Error in creating parser request'' s)
          else (Inl err, s)
      | None \<Rightarrow>
          let r = \<lparr> row_id = next_id s, row_created_at = now e, row_updated_at = now e,
                    row_status = default_status, row_input_data = p, row_result_data = None,
                    row_finished_at = None, row_error_message = None \<rparr>;
              s' = s\<lparr>rows := rows s @ [r], next_id := next_id s + 1\<rparr>
          in case one [r] of
               Inl err \<Rightarrow> (Inl err, s')
             | Inr r' \<Rightarrow> (map_sum id Some (detail_model_validate e r'), s'))"

text \<open>
  The three terminal writes: an \<^verbatim>\<open>UPDATE\<close> without \<^verbatim>\<open>RETURNING\<close>, executed and
  committed inside a \<^verbatim>\<open>try\<close> whose handler \<^verbatim>\<open>except DBAPIError\<close> logs and goes on.
  An exception of another class passes the handler and leaves the method; nothing is
  logged then.
\<close>

definition save_error ::
  "env \<Rightarrow> store \<Rightarrow> int \<Rightarrow> datetime \<Rightarrow> string \<Rightarrow> (error + unit) \<times> store" where
  "save_error e s i fin msg =
     (case db_raises e of
        Some err \<Rightarrow>
          if err = DBAPIError then (Inr (), log_warning ''Error save error'' s)
          else (Inl err, s)
      | None \<Rightarrow>
          (Inr (),
           s\<lparr>rows := update_where_id (now e) i
                (\<lambda>r. r\<lparr>row_finished_at := Some fin, row_status := FAILED,
                        row_error_message := Some msg\<rparr>) (rows s)\<rparr>))"

definition save_empty_result ::
  "env \<Rightarrow> store \<Rightarrow> int \<Rightarrow> datetime \<Rightarrow> string \<Rightarrow> (error + unit) \<times> store" where
  "save_empty_result e s i fin msg =
     (case db_raises e of
        Some err \<Rightarrow>
          if err = DBAPIError then (Inr (), log_warning ''Error save error'' s)
          else (Inl err, s)
      | None \<Rightarrow>
          (Inr (),
           s\<lparr>rows := update_where_id (now e) i
                (\<lambda>r. r\<lparr>row_finished_at := Some fin, row_status := EMPTY,
                        row_result_data := Some \<lparr>message = msg, user_stat = []\<rparr>\<rparr>) (rows s)\<rparr>))"

text \<open>
  \<^verbatim>\<open>save_successful_result\<close> stores \<^verbatim>\<open>result.model_dump()\<close>, the dictionary with the
  fields of the result model.
\<close>

definition save_successful_result ::
  "env \<Rightarrow> store \<Rightarrow> int \<Rightarrow> ResultData \<Rightarrow> datetime \<Rightarrow> (error + unit) \<times> store" where
  "save_successful_result e s i res fin =
     (case db_raises e of
        Some err \<Rightarrow>
          if err = DBAPIError then (Inr (), log_warning ''Error save error'' s)
          else (Inl err, s)
      | None \<Rightarrow>
          (Inr (),
           s\<lparr>rows := update_where_id (now e) i
                (\<lambda>r. r\<lparr>row_finished_at := Some fin, row_status := SUCCESSFUL,
                        row_result_data := Some res\<rparr>) (rows s)\<rparr>))"

subsection \<open>Statistics\<close>

text \<open>Decimal text of a JSON number, as the \<^verbatim>\<open>->>\<close> operator of the database prints it.\<close>

fun digits :: "nat \<Rightarrow> string" where
  "digits n =
     (if n < 10 then [char_of (48 + n)]
      else digits (n div 10) @ [char_of (48 + n mod 10)])"

definition astext :: "jv option \<Rightarrow> string option" where
  "astext v =
     (case v of
        None \<Rightarrow> None
      | Some JNull \<Rightarrow> None
      | Some (JStr s) \<Rightarrow> Some s
      | Some (JInt n) \<Rightarrow> Some (if n < 0 then CHR ''-'' # digits (nat (- n)) else digits (nat n)))"

text \<open>The filter \<^verbatim>\<open>input_data["parser_type"].astext == parser_type\<close>.\<close>

definition has_type :: "ParserTypes \<Rightarrow> ParserRequestDb \<Rightarrow> bool" where
  "has_type pt r = (astext (map_of (row_input_data r) ''parser_type'') = Some (ParserTypes_value pt))"

text \<open>
  \<^verbatim>\<open>SELECT status, count(*) ... GROUP BY status\<close>: one line for each status that occurs.
  The database chooses the order of the groups; it is the argument \<open>ord\<close>.
\<close>

definition group_by_status :: "RequestStatus list \<Rightarrow> ParserRequestDb list \<Rightarrow> (RequestStatus \<times> nat) list" where
  "group_by_status ord rs =
     filter (\<lambda>(st, c). 0 < c)
       (map (\<lambda>st. (st, length (filter (\<lambda>r. row_status r = st) rs))) ord)"

text \<open>
  \<^verbatim>\<open>stat_by_type\<close> has no \<^verbatim>\<open>try\<close>: whatever the execution raises leaves it as an
  exception.
\<close>

definition stat_by_type ::
  "env \<Rightarrow> RequestStatus list \<Rightarrow> store \<Rightarrow> ParserTypes \<Rightarrow> error + ParserTypes \<times> (RequestStatus \<times> nat) list" where
  "stat_by_type e ord s pt =
     (case db_raises e of
        Some err \<Rightarrow> Inl err
      | None \<Rightarrow> Inr (pt, group_by_status ord (filter (has_type pt) (rows s))))"

text \<open>
  The results of a list of computations in their order, or the first exception: what
  \<^verbatim>\<open>asyncio.gather\<close> without \<^verbatim>\<open>return_exceptions\<close> gives, and what a list
  comprehension over a raising constructor gives.
\<close>

fun collect :: "(error + 'a) list \<Rightarrow> error + 'a list" where
  "collect [] = Inr []"
| "collect (x # xs) =
     (case x of
        Inl err \<Rightarrow> Inl err
      | Inr v \<Rightarrow> (case collect xs of Inl err \<Rightarrow> Inl err | Inr vs \<Rightarrow> Inr (v # vs)))"

text \<open>
  \<^verbatim>\<open>stat\<close>: one task for each member of \<^verbatim>\<open>ParserTypes\<close>, each in a session of its own
  (\<open>e pt\<close>, \<open>ord pt\<close>), gathered and flattened by the two nested loops.
\<close>

definition stat ::
  "(ParserTypes \<Rightarrow> env) \<Rightarrow> (ParserTypes \<Rightarrow> RequestStatus list) \<Rightarrow> store
     \<Rightarrow> error + (ParserTypes \<times> RequestStatus \<times> nat) list" where
  "stat e ord s =
     (case collect (map (\<lambda>pt. stat_by_type (e pt) (ord pt) s pt) ParserTypes_members) of
        Inl err \<Rightarrow> Inl err
      | Inr st \<Rightarrow>
          Inr (concat (map (\<lambda>(pt, res). map (\<lambda>(req_status, c). (pt, req_status, c)) res) st)))"

subsection \<open>Pagination\<close>

text \<open>
  Modelled from the spec: \<^verbatim>\<open>PaginationResponse\<close> and \<^verbatim>\<open>PaginationMixin._paginate\<close> of
  \<^verbatim>\<open>vk_parser/generals/models/pagination.py\<close> and \<^verbatim>\<open>vk_parser/storages/base.py\<close>, which
  are not part of the excerpt. Section 4.2: the total is the count of the query without
  offset and limit; the items are the rows at offset \<open>(page - 1) * page_size\<close>, at most
  \<open>page_size\<close> of them, in the order of the query, each one mapped by the constructor of
  the requested shape. The database rejects a negative offset or limit.
\<close>

record 'a PaginationResponse =
  items :: "'a list"
  total_count :: nat
  resp_page :: int
  resp_page_size :: int

text \<open>
  Modelled from the spec: \<^verbatim>\<open>PaginationMixin._paginate\<close> of the absent
  \<^verbatim>\<open>vk_parser/storages/base.py\<close>, as section 4.2 describes it. The query is the
  list of its rows in its order; what the execution raises, and the \<^verbatim>\<open>DBAPIError\<close>
  for an offset or limit that the database rejects, are not caught by the helper.
\<close>

definition paginate ::
  "env \<Rightarrow> 'r list \<Rightarrow> int \<Rightarrow> int \<Rightarrow> ('r \<Rightarrow> error + 'm) \<Rightarrow> error + 'm PaginationResponse" where
  "paginate e query page page_size model_validate =
     (let offset = (page - 1) * page_size; limit = page_size
      in case db_raises e of
           Some err \<Rightarrow> Inl err
         | None \<Rightarrow>
             if offset < 0 \<or> limit < 0 then Inl DBAPIError
             else case collect (map model_validate (take (nat limit) (drop (nat offset) query))) of
                    Inl err \<Rightarrow> Inl err
                  | Inr xs \<Rightarrow>
                      Inr \<lparr> items = xs, total_count = length query, resp_page = page,
                            resp_page_size = page_size \<rparr>)"

text \<open>
  \<^verbatim>\<open>get_pagination\<close>: the query \<^verbatim>\<open>select(ParserRequestDb)\<close> has no order clause, so
  the database returns the rows of the table in an order of its own choice, which need
  not be the same for two queries. The argument \<open>scan\<close> is the order chosen for this
  query; \<open>is_scan\<close> says that it returns each row of the table once.
\<close>

definition is_scan :: "(ParserRequestDb list \<Rightarrow> ParserRequestDb list) \<Rightarrow> store \<Rightarrow> bool" where
  "is_scan scan s = (mset (scan (rows s)) = mset (rows s))"

definition get_pagination ::
  "env \<Rightarrow> (ParserRequestDb list \<Rightarrow> ParserRequestDb list) \<Rightarrow> store \<Rightarrow> int \<Rightarrow> int
     \<Rightarrow> error + ParserRequest PaginationResponse" where
  "get_pagination e scan s page page_size =
     paginate e (scan (rows s)) page page_size summary_model_validate"

text \<open>
  \<^verbatim>\<open>admin_pagination\<close>: the query is ordered by \<^verbatim>\<open>created_at\<close>, descending; rows
  with the same creation time are kept in the order of their insertion.
\<close>

definition order_by_created_at_desc :: "ParserRequestDb list \<Rightarrow> ParserRequestDb list" where
  "order_by_created_at_desc rs = sort_key (\<lambda>r. - row_created_at r) rs"

definition admin_pagination ::
  "env \<Rightarrow> store \<Rightarrow> int \<Rightarrow> int \<Rightarrow> error + DetailParserRequest PaginationResponse" where
  "admin_pagination e s page page_size =
     paginate e (order_by_created_at_desc (rows s)) page page_size (detail_model_validate e)"

text \<open>
  A scan of the listing: the number of pages that hold \<open>n\<close> rows at \<open>page_size\<close> rows
  a page, which is \<open>n / page_size\<close> rounded up, and the items of a page that was fetched.
\<close>

definition page_count :: "nat \<Rightarrow> int \<Rightarrow> int" where
  "page_count n page_size = (int n + page_size - 1) div page_size"

definition page_items :: "error + 'a PaginationResponse \<Rightarrow> 'a list" where
  "page_items r = (case r of Inl err \<Rightarrow> [] | Inr resp \<Rightarrow> items resp)"

subsection \<open>Sequences of store operations\<close>

datatype call =
    Create payload
  | UpdateStatus int RequestStatus
  | SaveError int datetime string
  | SaveEmptyResult int datetime string
  | SaveSuccessfulResult int ResultData datetime

fun exec :: "store \<Rightarrow> env \<times> call \<Rightarrow> store" where
  "exec s (e, Create p) = snd (create e s p)"
| "exec s (e, UpdateStatus i st) = snd (update_status e s i st)"
| "exec s (e, SaveError i fin msg) = snd (save_error e s i fin msg)"
| "exec s (e, SaveEmptyResult i fin msg) = snd (save_empty_result e s i fin msg)"
| "exec s (e, SaveSuccessfulResult i res fin) = snd (save_successful_result e s i res fin)"

definition empty_store :: store where
  "empty_store = \<lparr> rows = [], next_id = 1, warnings = [] \<rparr>"

definition run :: "(env \<times> call) list \<Rightarrow> store" where
  "run cs = foldl exec empty_store cs"

subsection \<open>Lifecycle\<close>

text \<open>
  The lifecycle of section 3: a request leaves a non-terminal state once. A call follows
  the lifecycle when \<^verbatim>\<open>update_status\<close> sets a non-terminal status on rows that are not
  finished, and a terminal write addresses rows that are not finished.
\<close>

definition non_terminal :: "RequestStatus \<Rightarrow> bool" where
  "non_terminal st = (st = PENDING \<or> st = PROCESSING)"

definition unfinished :: "store \<Rightarrow> int \<Rightarrow> bool" where
  "unfinished s i = list_all (\<lambda>r. row_id r = i \<longrightarrow> non_terminal (row_status r)) (rows s)"

fun follows_lifecycle :: "store \<Rightarrow> call \<Rightarrow> bool" where
  "follows_lifecycle s (Create p) = True"
| "follows_lifecycle s (UpdateStatus i st) = (non_terminal st \<and> unfinished s i)"
| "follows_lifecycle s (SaveError i fin msg) = unfinished s i"
| "follows_lifecycle s (SaveEmptyResult i fin msg) = unfinished s i"
| "follows_lifecycle s (SaveSuccessfulResult i res fin) = unfinished s i"

fun lifecycle_run :: "store \<Rightarrow> (env \<times> call) list \<Rightarrow> bool" where
  "lifecycle_run s [] = True"
| "lifecycle_run s (c # cs) = (follows_lifecycle s (snd c) \<and> lifecycle_run (exec s c) cs)"

text \<open>The invariant of section 3 on one row.\<close>

definition row_invariant :: "ParserRequestDb \<Rightarrow> bool" where
  "row_invariant r =
     ((row_finished_at r = None \<longleftrightarrow> non_terminal (row_status r))
      \<and> (row_status r = SUCCESSFUL \<or> row_status r = EMPTY \<longrightarrow>
           row_result_data r \<noteq> None \<and> row_error_message r = None)
      \<and> (row_status r = FAILED \<longrightarrow>
           row_error_message r \<noteq> None \<and> row_result_data r = None))"

text \<open>
  The same invariant with the part of section 3 about requests that have no result yet:
  such a row has neither a result nor an error message.
\<close>

definition row_settled :: "ParserRequestDb \<Rightarrow> bool" where
  "row_settled r =
     (case row_status r of
        PENDING \<Rightarrow>
          row_finished_at r = None \<and> row_result_data r = None \<and> row_error_message r = None
      | PROCESSING \<Rightarrow>
          row_finished_at r = None \<and> row_result_data r = None \<and> row_error_message r = None
      | SUCCESSFUL \<Rightarrow>
          row_finished_at r \<noteq> None \<and> row_result_data r \<noteq> None \<and> row_error_message r = None
      | EMPTY \<Rightarrow>
          row_finished_at r \<noteq> None \<and> row_result_data r \<noteq> None \<and> row_error_message r = None
      | FAILED \<Rightarrow>
          row_finished_at r \<noteq> None \<and> row_result_data r = None \<and> row_error_message r \<noteq> None)"

subsection \<open>Example values\<close>

text \<open>
  An environment whose validators accept a JSON string as a URL and a JSON number as a
  time or an integer, and in which the driver raises \<^verbatim>\<open>DBAPIError\<close> when \<open>f\<close> holds
  and nothing otherwise; the payload of the first scenario of section 8; and the store
  after that request has been created at time 3.
\<close>

definition lax_env :: "datetime \<Rightarrow> bool \<Rightarrow> env" where
  "lax_env t f =
     \<lparr> now = t, db_raises = (if f then Some DBAPIError else None),
       as_url = (\<lambda>v. case v of JStr u \<Rightarrow> Some u | _ \<Rightarrow> None),
       as_datetime = (\<lambda>v. case v of JInt n \<Rightarrow> Some n | _ \<Rightarrow> None),
       as_int = (\<lambda>v. case v of JInt n \<Rightarrow> Some n | _ \<Rightarrow> None) \<rparr>"

definition simple_payload :: payload where
  "simple_payload =
     [(''parser_type'', JStr ''VK_SIMPLE_DOWNLOAD''),
      (''group_url'', JStr ''https://vk.com/example''), (''max_age'', JInt 10)]"

definition sample_store :: store where
  "sample_store = snd (create (lax_env 3 False) empty_store simple_payload)"

text \<open>
  A payload of the second variant, and a store with three requests: two simple downloads
  that are pending and one download with parsing that is being processed.
\<close>

definition posts_payload :: payload where
  "posts_payload =
     [(''parser_type'', JStr ''VK_DOWNLOAD_AND_PARSED_POSTS''),
      (''group_url'', JStr ''https://vk.com/example''), (''posted_up_to'', JInt 100),
      (''max_age'', JInt 20)]"

definition busy_store :: store where
  "busy_store =
     run [(lax_env 3 False, Create simple_payload), (lax_env 5 False, Create posts_payload),
          (lax_env 7 False, Create simple_payload),
          (lax_env 8 False, UpdateStatus 2 PROCESSING)]"

text \<open>The same environment when the database server refuses the connection.\<close>

definition refused_env :: "datetime \<Rightarrow> env" where
  "refused_env t = (lax_env t False)\<lparr>db_raises := Some ConnectionRefusedError\<rparr>"

text \<open>
  Two orders in which the database may return the rows of the three requests for a query
  without order clause: with the row that was updated last at the end, and rotated by
  one row for every page but the first.
\<close>

definition updated_last :: "'a list \<Rightarrow> 'a list" where
  "updated_last rs = (case rs of [a, b, c] \<Rightarrow> [a, c, b] | _ \<Rightarrow> rs)"

definition rotating :: "int \<Rightarrow> 'a list \<Rightarrow> 'a list" where
  "rotating p rs = (if p = 1 then rs else rotate1 rs)"

text \<open>One order in which the database may return the status groups.\<close>

definition all_statuses :: "RequestStatus list" where
  "all_statuses = [PENDING, PROCESSING, SUCCESSFUL, EMPTY, FAILED]"

section \<open>Properties\<close>

subsection \<open>Auxiliary facts\<close>


lemma sample_store_eq:
  "sample_store =
     \<lparr> rows = [\<lparr> row_id = 1, row_created_at = 3, row_updated_at = 3, row_status = PENDING,
                 row_input_data = simple_payload, row_result_data = None,
                 row_finished_at = None, row_error_message = None \<rparr>],
       next_id = 2, warnings = [] \<rparr>"
  by (simp add: sample_store_def create_def lax_env_def empty_store_def default_status_def
      one_def Let_def)

lemma busy_store_eq:
  "busy_store =
     \<lparr> rows = [\<lparr> row_id = 1, row_created_at = 3, row_updated_at = 3, row_status = PENDING,
                 row_input_data = simple_payload, row_result_data = None,
                 row_finished_at = None, row_error_message = None \<rparr>,
               \<lparr> row_id = 2, row_created_at = 5, row_updated_at = 8, row_status = PROCESSING,
                 row_input_data = posts_payload, row_result_data = None,
                 row_finished_at = None, row_error_message = None \<rparr>,
               \<lparr> row_id = 3, row_created_at = 7, row_updated_at = 7, row_status = PENDING,
                 row_input_data = simple_payload, row_result_data = None,
                 row_finished_at = None, row_error_message = None \<rparr>],
       next_id = 4, warnings = [] \<rparr>"
  by (simp add: busy_store_def run_def create_def update_status_def lax_env_def
      empty_store_def default_status_def one_def Let_def update_where_id_def
      split: sum.splits)

lemma validate_posts_payload:
  "validate_input_data (lax_env t f) posts_payload =
     Inr (ParsePostsVkInputData VK_DOWNLOAD_AND_PARSED_POSTS ''https://vk.com/example'' 100 20)"
  by (simp add: validate_input_data_def posts_payload_def tag_of_def validate_parse_posts_def
      lax_env_def)

lemma validate_simple_payload:
  "validate_input_data (lax_env t f) simple_payload =
     Inr (SimpleVkInputData VK_SIMPLE_DOWNLOAD ''https://vk.com/example'' 10)"
  by (simp add: validate_input_data_def simple_payload_def tag_of_def validate_simple_def
      lax_env_def)

subsection \<open>Status update of a missing row\<close>

text \<open>
  C1. \<^verbatim>\<open>update_status\<close> is specified to return \<^verbatim>\<open>None\<close> when no row has the id. The
  code calls \<^verbatim>\<open>result.one()\<close> on the empty result, which raises \<^verbatim>\<open>NoResultFound\<close>; that
  is not a \<^verbatim>\<open>DBAPIError\<close>, so it reaches the caller. On the store with the one request 1,
  a status update of request 9999 ends with that exception.
\<close>

theorem update_status_missing_row_raises:
  "fst (update_status (lax_env 5 False) sample_store 9999 PROCESSING) = Inl NoResultFound"
  by (simp add: update_status_def lax_env_def sample_store_eq update_where_id_def one_def)

subsection \<open>Terminal writes to a missing row\<close>



subsection \<open>Frame of a status update\<close>

text \<open>
  C10. A successful \<^verbatim>\<open>update_status\<close> keeps the number and order of the rows, the id
  sequence and the log. Every row with another id is unchanged; a row with the id differs
  from its old value in \<^verbatim>\<open>status\<close> and \<^verbatim>\<open>updated_at\<close> only, so its id, creation
  time, input, result, end time and error message are the old ones.
\<close>
theorem update_status_frame:
  assumes "update_status e s i st = (Inr (Some d), s')"
  shows "length (rows s') = length (rows s) \<and> next_id s' = next_id s
       \<and> warnings s' = warnings s
       \<and> (\<forall>k<length (rows s).
            (row_id (rows s ! k) \<noteq> i \<longrightarrow> rows s' ! k = rows s ! k)
          \<and> (row_id (rows s ! k) = i \<longrightarrow>
               rows s' ! k = (rows s ! k)\<lparr>row_status := st, row_updated_at := now e\<rparr>)
          \<and> row_id (rows s' ! k) = row_id (rows s ! k)
          \<and> row_created_at (rows s' ! k) = row_created_at (rows s ! k)
          \<and> row_input_data (rows s' ! k) = row_input_data (rows s ! k)
          \<and> row_result_data (rows s' ! k) = row_result_data (rows s ! k)
          \<and> row_finished_at (rows s' ! k) = row_finished_at (rows s ! k)
          \<and> row_error_message (rows s' ! k) = row_error_message (rows s ! k))"
proof -
  have nf: "db_raises e = None"
    using assms by (auto simp: update_status_def split: option.splits if_splits)
  then have s': "s' = s\<lparr>rows := update_where_id (now e) i (\<lambda>r. r\<lparr>row_status := st\<rparr>) (rows s)\<rparr>"
    using assms by (auto simp: update_status_def Let_def split: sum.splits)
  show ?thesis
    unfolding s' by (simp add: update_where_id_def)
qed

lemma update_status_sample:
  "update_status (lax_env 4 False) sample_store 1 PROCESSING =
     (Inr (Some \<lparr> request_id = 1, created_at = 3, updated_at = 4, status = PROCESSING,
                   input_data = SimpleVkInputData VK_SIMPLE_DOWNLOAD ''https://vk.com/example'' 10,
                   result_data = None, finished_at = None, error_message = None \<rparr>),
      sample_store\<lparr>rows := [(rows sample_store ! 0)\<lparr>row_status := PROCESSING, row_updated_at := 4\<rparr>]\<rparr>)"
proof -
  have n: "now (lax_env 4 False) = 4" and f: "db_raises (lax_env 4 False) = None"
    by (simp_all add: lax_env_def)
  show ?thesis
    by (simp add: update_status_def n f sample_store_eq update_where_id_def one_def
        detail_model_validate_def validate_simple_payload Let_def)
qed

theorem update_status_frame_witness:
  "fst (update_status (lax_env 4 False) sample_store 1 PROCESSING) =
     Inr (Some \<lparr> request_id = 1, created_at = 3, updated_at = 4, status = PROCESSING,
                  input_data = SimpleVkInputData VK_SIMPLE_DOWNLOAD ''https://vk.com/example'' 10,
                  result_data = None, finished_at = None, error_message = None \<rparr>)
   \<and> length (rows (snd (update_status (lax_env 4 False) sample_store 1 PROCESSING))) = 1
   \<and> row_finished_at (rows (snd (update_status (lax_env 4 False) sample_store 1 PROCESSING)) ! 0) = None
   \<and> row_input_data (rows (snd (update_status (lax_env 4 False) sample_store 1 PROCESSING)) ! 0)
       = simple_payload"
  using update_status_frame [OF update_status_sample] update_status_sample
  by (simp add: sample_store_eq)

subsection \<open>Empty result\<close>

text \<open>
  The specification says that any data-access failure is swallowed and that the call
  always returns. The handler of \<^verbatim>\<open>save_empty_result\<close> is \<^verbatim>\<open>except DBAPIError\<close>: when the
  server refuses the connection the call ends with \<^verbatim>\<open>ConnectionRefusedError\<close>, and
  nothing is written or logged.
\<close>

theorem save_empty_result_refused_counterexample:
  "fst (save_empty_result (refused_env 9) sample_store 1 8 ''nothing found'') \<noteq> Inr ()
   \<and> save_empty_result (refused_env 9) sample_store 1 8 ''nothing found'' =
       (Inl ConnectionRefusedError, sample_store)"
  by (simp add: save_empty_result_def refused_env_def lax_env_def)

text \<open>
  C6. On a database that works, \<^verbatim>\<open>save_empty_result\<close> returns normally and every row
  with the id gets status \<^verbatim>\<open>EMPTY\<close>, the given end time and the result
  \<open>{message, user_stat = []}\<close>, and is otherwise unchanged but for \<^verbatim>\<open>updated_at\<close>.
  When the driver reports a \<^verbatim>\<open>DBAPIError\<close> the call also returns normally, the rows
  are unchanged and one warning is logged. An exception of another class is not caught:
  the call ends with it and the store is unchanged.
\<close>

theorem save_empty_result_sets_row:
  "length (rows (snd (save_empty_result e s i fin msg))) = length (rows s)
   \<and> (db_raises e = None \<longrightarrow>
        fst (save_empty_result e s i fin msg) = Inr ()
      \<and> (\<forall>k<length (rows s). row_id (rows s ! k) = i \<longrightarrow>
           rows (snd (save_empty_result e s i fin msg)) ! k =
             (rows s ! k)\<lparr>row_finished_at := Some fin, row_status := EMPTY,
                           row_result_data := Some \<lparr>message = msg, user_stat = []\<rparr>,
                           row_updated_at := now e\<rparr>))
   \<and> (db_raises e = Some DBAPIError \<longrightarrow>
        fst (save_empty_result e s i fin msg) = Inr ()
      \<and> rows (snd (save_empty_result e s i fin msg)) = rows s
      \<and> warnings (snd (save_empty_result e s i fin msg)) = warnings s @ [''Error save error''])
   \<and> (\<forall>err. db_raises e = Some err \<and> err \<noteq> DBAPIError \<longrightarrow>
        save_empty_result e s i fin msg = (Inl err, s))"
  by (cases "db_raises e")
     (simp_all add: save_empty_result_def update_where_id_def log_warning_def)

theorem save_empty_result_sets_row_witness:
  "rows (snd (save_empty_result (lax_env 9 False) sample_store 1 8 ''nothing found'')) =
     [\<lparr> row_id = 1, row_created_at = 3, row_updated_at = 9, row_status = EMPTY,
        row_input_data = simple_payload,
        row_result_data = Some \<lparr>message = ''nothing found'', user_stat = []\<rparr>,
        row_finished_at = Some 8, row_error_message = None \<rparr>]
   \<and> fst (save_empty_result (lax_env 9 False) sample_store 1 8 ''nothing found'') = Inr ()
   \<and> fst (save_empty_result (lax_env 9 True) sample_store 1 8 ''nothing found'') = Inr ()
   \<and> rows (snd (save_empty_result (lax_env 9 True) sample_store 1 8 ''nothing found''))
       = rows sample_store
   \<and> fst (save_empty_result (refused_env 9) sample_store 1 8 ''nothing found'')
       = Inl ConnectionRefusedError"
proof -
  have n: "now (lax_env 9 False) = 9" and f: "db_raises (lax_env 9 False) = None"
    and t: "db_raises (lax_env 9 True) = Some DBAPIError"
    and r: "db_raises (refused_env 9) = Some ConnectionRefusedError"
    by (simp_all add: lax_env_def refused_env_def)
  note ok = save_empty_result_sets_row [of "lax_env 9 False" sample_store 1 8 "''nothing found''"]
  have "rows (snd (save_empty_result (lax_env 9 False) sample_store 1 8 ''nothing found'')) ! 0
        = (rows sample_store ! 0)\<lparr>row_finished_at := Some 8, row_status := EMPTY,
             row_result_data := Some \<lparr>message = ''nothing found'', user_stat = []\<rparr>,
             row_updated_at := 9\<rparr>"
    using ok n f by (simp add: sample_store_eq)
  moreover have "length (rows (snd (save_empty_result (lax_env 9 False) sample_store 1 8 ''nothing found''))) = 1"
    using ok by (simp add: sample_store_eq)
  ultimately have a: "rows (snd (save_empty_result (lax_env 9 False) sample_store 1 8 ''nothing found'')) =
     [\<lparr> row_id = 1, row_created_at = 3, row_updated_at = 9, row_status = EMPTY,
        row_input_data = simple_payload,
        row_result_data = Some \<lparr>message = ''nothing found'', user_stat = []\<rparr>,
        row_finished_at = Some 8, row_error_message = None \<rparr>]"
    by (cases "rows (snd (save_empty_result (lax_env 9 False) sample_store 1 8 ''nothing found''))")
       (simp_all add: sample_store_eq)
  have b: "fst (save_empty_result (lax_env 9 False) sample_store 1 8 ''nothing found'') = Inr ()"
    using ok f by simp
  show ?thesis
    using a b save_empty_result_sets_row [of "lax_env 9 True" sample_store 1 8 "''nothing found''"]
      save_empty_result_sets_row [of "refused_env 9" sample_store 1 8 "''nothing found''"] t r
    by simp
qed

subsection \<open>Creation\<close>

text \<open>
  The specification says that \<^verbatim>\<open>create\<close> returns \<^verbatim>\<open>None\<close> on any data-access
  failure. Its handler is \<^verbatim>\<open>except DBAPIError\<close>: when the server refuses the connection the call
  ends with \<^verbatim>\<open>ConnectionRefusedError\<close>, with no row and no warning.
\<close>

theorem create_refused_counterexample:
  "fst (create (refused_env 3) empty_store simple_payload) \<noteq> Inr None
   \<and> create (refused_env 3) empty_store simple_payload =
       (Inl ConnectionRefusedError, empty_store)"
  by (simp add: create_def refused_env_def lax_env_def)

text \<open>
  C4. For a payload that validates, \<^verbatim>\<open>create\<close> on a database that works appends
  exactly one row, with the payload as \<^verbatim>\<open>input_data\<close>, status \<^verbatim>\<open>PENDING\<close>, no end
  time, the next id of the sequence and the clock's time, and returns the detail
  projection of that row. When the driver reports a \<^verbatim>\<open>DBAPIError\<close> it returns
  \<^verbatim>\<open>None\<close>, logs one warning and leaves the table and the sequence as they were. An
  exception of another class is not caught: the call ends with it and the store is
  unchanged.
\<close>

theorem create_inserts_pending_row:
  assumes "validate_input_data e p = Inr inp"
  shows "(db_raises e = None \<longrightarrow>
           create e s p =
             (Inr (Some \<lparr> request_id = next_id s, created_at = now e, updated_at = now e,
                           status = PENDING, input_data = inp, result_data = None,
                           finished_at = None, error_message = None \<rparr>),
              s\<lparr>rows := rows s @
                    [\<lparr> row_id = next_id s, row_created_at = now e, row_updated_at = now e,
                       row_status = PENDING, row_input_data = p, row_result_data = None,
                       row_finished_at = None, row_error_message = None \<rparr>],
                 next_id := next_id s + 1\<rparr>))
       \<and> (db_raises e = Some DBAPIError \<longrightarrow>
           create e s p =
             (Inr None, s\<lparr>warnings := warnings s @ [''Error in creating parser request'']\<rparr>))
       \<and> (\<forall>err. db_raises e = Some err \<and> err \<noteq> DBAPIError \<longrightarrow>
           create e s p = (Inl err, s))"
  using assms
  by (cases "db_raises e")
     (simp_all add: create_def Let_def one_def detail_model_validate_def default_status_def
        log_warning_def)

theorem create_inserts_pending_row_witness:
  "create (lax_env 3 False) empty_store simple_payload =
     (Inr (Some \<lparr> request_id = 1, created_at = 3, updated_at = 3, status = PENDING,
                   input_data = SimpleVkInputData VK_SIMPLE_DOWNLOAD ''https://vk.com/example'' 10,
                   result_data = None, finished_at = None, error_message = None \<rparr>),
      \<lparr> rows = [\<lparr> row_id = 1, row_created_at = 3, row_updated_at = 3, row_status = PENDING,
                  row_input_data = simple_payload, row_result_data = None,
                  row_finished_at = None, row_error_message = None \<rparr>],
        next_id = 2, warnings = [] \<rparr>)
   \<and> create (lax_env 3 True) empty_store simple_payload =
     (Inr None, \<lparr> rows = [], next_id = 1, warnings = [''Error in creating parser request''] \<rparr>)"
proof -
  have n: "now (lax_env 3 False) = 3" and f: "db_raises (lax_env 3 False) = None"
    and t: "db_raises (lax_env 3 True) = Some DBAPIError"
    by (simp_all add: lax_env_def)
  show ?thesis
    using create_inserts_pending_row [OF validate_simple_payload, of 3 False empty_store]
      create_inserts_pending_row [OF validate_simple_payload, of 3 True empty_store] n f t
    by (simp add: empty_store_def)
qed

subsection \<open>Discriminator\<close>

lemma validate_input_data_tag:
  assumes "validate_input_data e p = Inr i"
  shows "map_of p ''parser_type'' = Some (JStr (ParserTypes_value (parser_type i)))
       \<and> (case i of SimpleVkInputData t _ _ \<Rightarrow> t = VK_SIMPLE_DOWNLOAD
                  | ParsePostsVkInputData t _ _ _ \<Rightarrow> t = VK_DOWNLOAD_AND_PARSED_POSTS)"
proof (cases "map_of p ''parser_type''")
  case None
  with assms show ?thesis by (simp add: validate_input_data_def)
next
  case (Some v)
  show ?thesis
  proof (cases "tag_of v")
    case None
    with Some assms show ?thesis by (simp add: validate_input_data_def)
  next
    case tag: (Some t)
    have v: "v = JStr (ParserTypes_value t)"
      using tag by (auto simp: tag_of_def split: jv.splits if_splits)
    show ?thesis
    proof (cases t)
      case VK_SIMPLE_DOWNLOAD
      then have "validate_simple e p = Inr i"
        using assms Some tag by (simp add: validate_input_data_def)
      then obtain u a where "i = SimpleVkInputData VK_SIMPLE_DOWNLOAD u a"
        by (auto simp: validate_simple_def split: option.splits)
      then show ?thesis using Some v VK_SIMPLE_DOWNLOAD by simp
    next
      case VK_DOWNLOAD_AND_PARSED_POSTS
      then have "validate_parse_posts e p = Inr i"
        using assms Some tag by (simp add: validate_input_data_def)
      then obtain u d a where "i = ParsePostsVkInputData VK_DOWNLOAD_AND_PARSED_POSTS u d a"
        by (auto simp: validate_parse_posts_def split: option.splits)
      then show ?thesis using Some v VK_DOWNLOAD_AND_PARSED_POSTS by simp
    qed
  qed
qed

lemma filter_id_fresh:
  "\<forall>r\<in>set rs. row_id r < n \<Longrightarrow> filter (\<lambda>r. row_id r = n) rs = []"
  by (induction rs) auto

text \<open>
  C7. The derived \<^verbatim>\<open>parser_type\<close> of a detail record is the \<^verbatim>\<open>parser_type\<close> field
  of its input, which is the tag of its variant. For a request that \<^verbatim>\<open>create\<close> has
  returned, it is the discriminator of the payload given to \<^verbatim>\<open>create\<close>, and a later
  \<^verbatim>\<open>get_detail\<close> of the new id reads the same type back, in a store whose id
  sequence is ahead of the ids in use.
\<close>

theorem parser_type_read_back:
  assumes ids: "\<forall>r\<in>set (rows s). row_id r < next_id s"
    and cr: "fst (create e s p) = Inr (Some d)"
    and rd: "get_detail e' (snd (create e s p)) (request_id d) = Inr (Some d')"
  shows "detail_parser_type d = parser_type (input_data d)
       \<and> map_of p ''parser_type'' = Some (JStr (ParserTypes_value (detail_parser_type d)))
       \<and> detail_parser_type d' = detail_parser_type d
       \<and> (case input_data d' of
            SimpleVkInputData _ _ _ \<Rightarrow> detail_parser_type d' = VK_SIMPLE_DOWNLOAD
          | ParsePostsVkInputData _ _ _ _ \<Rightarrow> detail_parser_type d' = VK_DOWNLOAD_AND_PARSED_POSTS)"
proof -
  let ?r = "\<lparr> row_id = next_id s, row_created_at = now e, row_updated_at = now e,
              row_status = default_status, row_input_data = p, row_result_data = None,
              row_finished_at = None, row_error_message = None \<rparr>"
  have nf: "db_raises e = None"
    using cr by (auto simp: create_def split: option.splits if_splits)
  have dv: "detail_model_validate e ?r = Inr d"
    using cr nf by (cases "detail_model_validate e ?r") (simp_all add: create_def Let_def one_def)
  then have vi: "validate_input_data e p = Inr (input_data d)" and rid: "request_id d = next_id s"
    by (auto simp: detail_model_validate_def split: sum.splits)
  have s': "rows (snd (create e s p)) = rows s @ [?r]"
    using nf by (simp add: create_def Let_def one_def split: sum.splits)
  have nf': "db_raises e' = None"
    using rd by (auto simp: get_detail_def split: option.splits)
  have "filter (\<lambda>r. row_id r = next_id s) (rows (snd (create e s p))) = [?r]"
    unfolding s' using filter_id_fresh [OF ids] by simp
  then have "detail_model_validate e' ?r = Inr d'"
    using rd nf' rid
    by (cases "detail_model_validate e' ?r") (simp_all add: get_detail_def first_def)
  then have vi': "validate_input_data e' p = Inr (input_data d')"
    by (auto simp: detail_model_validate_def split: sum.splits)
  from validate_input_data_tag [OF vi] validate_input_data_tag [OF vi']
  have "ParserTypes_value (parser_type (input_data d')) = ParserTypes_value (parser_type (input_data d))"
    by simp
  then have "parser_type (input_data d') = parser_type (input_data d)"
    by (cases "parser_type (input_data d')"; cases "parser_type (input_data d)") simp_all
  then show ?thesis
    using validate_input_data_tag [OF vi] validate_input_data_tag [OF vi']
    by (auto simp: detail_parser_type_def split: InputData.splits)
qed

lemma get_detail_sample:
  "get_detail (lax_env 7 False) sample_store 1 =
     Inr (Some \<lparr> request_id = 1, created_at = 3, updated_at = 3, status = PENDING,
                  input_data = SimpleVkInputData VK_SIMPLE_DOWNLOAD ''https://vk.com/example'' 10,
                  result_data = None, finished_at = None, error_message = None \<rparr>)"
proof -
  have f: "db_raises (lax_env 7 False) = None"
    by (simp add: lax_env_def)
  show ?thesis
    by (simp add: get_detail_def f sample_store_eq first_def detail_model_validate_def
        validate_simple_payload)
qed

theorem parser_type_read_back_witness:
  "list_all (\<lambda>r. row_id r < next_id empty_store) (rows empty_store)
   \<and> fst (create (lax_env 3 False) empty_store simple_payload) =
       Inr (Some \<lparr> request_id = 1, created_at = 3, updated_at = 3, status = PENDING,
                    input_data = SimpleVkInputData VK_SIMPLE_DOWNLOAD ''https://vk.com/example'' 10,
                    result_data = None, finished_at = None, error_message = None \<rparr>)
   \<and> detail_parser_type
       \<lparr> request_id = 1, created_at = 3, updated_at = 3, status = PENDING,
         input_data = SimpleVkInputData VK_SIMPLE_DOWNLOAD ''https://vk.com/example'' 10,
         result_data = None, finished_at = None, error_message = None \<rparr> = VK_SIMPLE_DOWNLOAD
   \<and> map_of simple_payload ''parser_type'' = Some (JStr ''VK_SIMPLE_DOWNLOAD'')"
proof -
  let ?d = "\<lparr> request_id = 1, created_at = 3, updated_at = 3, status = PENDING,
         input_data = SimpleVkInputData VK_SIMPLE_DOWNLOAD ''https://vk.com/example'' 10,
         result_data = None, finished_at = None, error_message = None \<rparr>"
  have ids: "\<forall>r\<in>set (rows empty_store). row_id r < next_id empty_store"
    by (simp add: empty_store_def)
  have n: "now (lax_env 3 False) = 3" and f: "db_raises (lax_env 3 False) = None"
    by (simp_all add: lax_env_def)
  have cr: "fst (create (lax_env 3 False) empty_store simple_payload) = Inr (Some ?d)"
    by (simp add: create_def Let_def one_def detail_model_validate_def default_status_def
        validate_simple_payload n f empty_store_def)
  have rd: "get_detail (lax_env 7 False) (snd (create (lax_env 3 False) empty_store simple_payload))
              (request_id ?d) = Inr (Some ?d)"
    using get_detail_sample by (simp add: sample_store_def)
  from parser_type_read_back [OF ids cr rd] cr show ?thesis
    by (simp add: empty_store_def)
qed

subsection \<open>Row invariant\<close>

lemma row_settled_invariant: "row_settled r \<Longrightarrow> row_invariant r"
  by (cases "row_status r") (simp_all add: row_settled_def row_invariant_def non_terminal_def)

lemma update_where_id_settled:
  assumes "list_all row_settled rs"
    and "\<And>r. r \<in> set rs \<Longrightarrow> row_id r = i \<Longrightarrow> row_settled ((f r)\<lparr>row_updated_at := t\<rparr>)"
  shows "list_all row_settled (update_where_id t i f rs)"
  using assms by (induction rs) (auto simp: update_where_id_def)

lemma unfinished_row:
  "unfinished s i \<Longrightarrow> r \<in> set (rows s) \<Longrightarrow> row_id r = i \<Longrightarrow> non_terminal (row_status r)"
  by (auto simp: unfinished_def list_all_iff)

lemma non_terminal_settled:
  "non_terminal (row_status r) \<Longrightarrow> row_settled r \<Longrightarrow>
     row_finished_at r = None \<and> row_result_data r = None \<and> row_error_message r = None"
  by (cases "row_status r") (simp_all add: row_settled_def non_terminal_def)

lemma exec_settled:
  assumes inv: "list_all row_settled (rows s)" and ok: "follows_lifecycle s c"
  shows "list_all row_settled (rows (exec s (e, c)))"
proof (cases c)
  case (Create p)
  show ?thesis
    using inv unfolding Create
    by (simp add: create_def Let_def one_def log_warning_def row_settled_def default_status_def
        split: sum.splits option.splits)
next
  case (UpdateStatus i st)
  then have nt: "non_terminal st" and un: "unfinished s i"
    using ok by simp_all
  have "list_all row_settled
          (update_where_id (now e) i (\<lambda>r. r\<lparr>row_status := st\<rparr>) (rows s))"
  proof (rule update_where_id_settled [OF inv])
    fix r assume r: "r \<in> set (rows s)" "row_id r = i"
    then have "row_settled r"
      using inv by (simp add: list_all_iff)
    from non_terminal_settled [OF unfinished_row [OF un r] this] nt
    show "row_settled (r\<lparr>row_status := st, row_updated_at := now e\<rparr>)"
      by (auto simp: row_settled_def non_terminal_def)
  qed
  then show ?thesis
    using inv unfolding UpdateStatus
    by (simp add: update_status_def Let_def log_warning_def split: sum.splits option.splits)
next
  case (SaveError i fin msg)
  then have un: "unfinished s i"
    using ok by simp
  have "list_all row_settled
          (update_where_id (now e) i
             (\<lambda>r. r\<lparr>row_finished_at := Some fin, row_status := FAILED,
                     row_error_message := Some msg\<rparr>) (rows s))"
  proof (rule update_where_id_settled [OF inv])
    fix r assume r: "r \<in> set (rows s)" "row_id r = i"
    then have "row_settled r"
      using inv by (simp add: list_all_iff)
    from non_terminal_settled [OF unfinished_row [OF un r] this]
    show "row_settled (r\<lparr>row_finished_at := Some fin, row_status := FAILED,
                          row_error_message := Some msg, row_updated_at := now e\<rparr>)"
      by (simp add: row_settled_def)
  qed
  then show ?thesis
    using inv unfolding SaveError
    by (simp add: save_error_def log_warning_def split: option.splits)
next
  case (SaveEmptyResult i fin msg)
  then have un: "unfinished s i"
    using ok by simp
  have "list_all row_settled
          (update_where_id (now e) i
             (\<lambda>r. r\<lparr>row_finished_at := Some fin, row_status := EMPTY,
                     row_result_data := Some \<lparr>message = msg, user_stat = []\<rparr>\<rparr>) (rows s))"
  proof (rule update_where_id_settled [OF inv])
    fix r assume r: "r \<in> set (rows s)" "row_id r = i"
    then have "row_settled r"
      using inv by (simp add: list_all_iff)
    from non_terminal_settled [OF unfinished_row [OF un r] this]
    show "row_settled (r\<lparr>row_finished_at := Some fin, row_status := EMPTY,
                          row_result_data := Some \<lparr>message = msg, user_stat = []\<rparr>,
                          row_updated_at := now e\<rparr>)"
      by (simp add: row_settled_def)
  qed
  then show ?thesis
    using inv unfolding SaveEmptyResult
    by (simp add: save_empty_result_def log_warning_def split: option.splits)
next
  case (SaveSuccessfulResult i res fin)
  then have un: "unfinished s i"
    using ok by simp
  have "list_all row_settled
          (update_where_id (now e) i
             (\<lambda>r. r\<lparr>row_finished_at := Some fin, row_status := SUCCESSFUL,
                     row_result_data := Some res\<rparr>) (rows s))"
  proof (rule update_where_id_settled [OF inv])
    fix r assume r: "r \<in> set (rows s)" "row_id r = i"
    then have "row_settled r"
      using inv by (simp add: list_all_iff)
    from non_terminal_settled [OF unfinished_row [OF un r] this]
    show "row_settled (r\<lparr>row_finished_at := Some fin, row_status := SUCCESSFUL,
                          row_result_data := Some res, row_updated_at := now e\<rparr>)"
      by (simp add: row_settled_def)
  qed
  then show ?thesis
    using inv unfolding SaveSuccessfulResult
    by (simp add: save_successful_result_def log_warning_def split: option.splits)
qed

lemma foldl_exec_settled:
  "list_all row_settled (rows s) \<Longrightarrow> lifecycle_run s cs \<Longrightarrow>
     list_all row_settled (rows (foldl exec s cs))"
proof (induction cs arbitrary: s)
  case Nil
  then show ?case by simp
next
  case (Cons c cs)
  obtain e k where c: "c = (e, k)"
    by (cases c)
  from Cons.prems have "list_all row_settled (rows (exec s c))"
    unfolding c using exec_settled by simp
  with Cons show ?case by simp
qed

text \<open>
  The invariant is stated for every sequence of store operations. It fails for two of
  them: a status update that sets \<^verbatim>\<open>SUCCESSFUL\<close> on a new request leaves a finished
  status without end time and result, and \<^verbatim>\<open>save_error\<close> on a request that has a
  result leaves status \<^verbatim>\<open>FAILED\<close> with the result still present. The writes check
  no current state.
\<close>

theorem row_invariant_counterexample:
  "\<not> list_all row_invariant
       (rows (run [(lax_env 3 False, Create simple_payload),
                   (lax_env 4 False, UpdateStatus 1 SUCCESSFUL)]))
   \<and> \<not> list_all row_invariant
       (rows (run [(lax_env 3 False, Create simple_payload),
                   (lax_env 4 False, SaveSuccessfulResult 1 \<lparr>message = ''ok'', user_stat = []\<rparr> 4),
                   (lax_env 5 False, SaveError 1 5 ''late failure'')]))"
  by (simp add: run_def create_def update_status_def save_successful_result_def save_error_def
      Let_def one_def update_where_id_def empty_store_def lax_env_def default_status_def
      row_invariant_def non_terminal_def split: sum.splits)

text \<open>
  C2. In every state reached from the empty store by a sequence of operations that
  follows the lifecycle (\<^verbatim>\<open>update_status\<close> sets \<^verbatim>\<open>PENDING\<close> or \<^verbatim>\<open>PROCESSING\<close> on
  requests that are pending or processing, and each terminal write addresses requests
  that are pending or processing), each row satisfies: \<^verbatim>\<open>finished_at\<close> is null if and
  only if the status is \<^verbatim>\<open>PENDING\<close> or \<^verbatim>\<open>PROCESSING\<close>; with status \<^verbatim>\<open>SUCCESSFUL\<close>
  or \<^verbatim>\<open>EMPTY\<close> the result is present and the error message absent; with status
  \<^verbatim>\<open>FAILED\<close> the error message is present and the result absent.
\<close>

theorem lifecycle_keeps_row_invariant:
  assumes "lifecycle_run empty_store cs"
  shows "\<forall>r\<in>set (rows (run cs)). row_invariant r"
proof -
  have "list_all row_settled (rows empty_store)"
    by (simp add: empty_store_def)
  from foldl_exec_settled [OF this assms] show ?thesis
    by (auto simp: run_def list_all_iff intro: row_settled_invariant)
qed

theorem lifecycle_keeps_row_invariant_witness:
  "lifecycle_run empty_store
     [(lax_env 3 False, Create simple_payload),
      (lax_env 4 False, UpdateStatus 1 PROCESSING),
      (lax_env 6 False, SaveSuccessfulResult 1
         \<lparr>message = ''ok'', user_stat = [\<lparr>vk_id = 1, count = 5\<rparr>]\<rparr> 6)]
   \<and> list_all row_invariant
       (rows (run [(lax_env 3 False, Create simple_payload),
                   (lax_env 4 False, UpdateStatus 1 PROCESSING),
                   (lax_env 6 False, SaveSuccessfulResult 1
                      \<lparr>message = ''ok'', user_stat = [\<lparr>vk_id = 1, count = 5\<rparr>]\<rparr> 6)]))
   \<and> map row_status
       (rows (run [(lax_env 3 False, Create simple_payload),
                   (lax_env 4 False, UpdateStatus 1 PROCESSING),
                   (lax_env 6 False, SaveSuccessfulResult 1
                      \<lparr>message = ''ok'', user_stat = [\<lparr>vk_id = 1, count = 5\<rparr>]\<rparr> 6)]))
       = [SUCCESSFUL]"
proof -
  let ?cs = "[(lax_env 3 False, Create simple_payload),
      (lax_env 4 False, UpdateStatus 1 PROCESSING),
      (lax_env 6 False, SaveSuccessfulResult 1
         \<lparr>message = ''ok'', user_stat = [\<lparr>vk_id = 1, count = 5\<rparr>]\<rparr> 6)]"
  have lr: "lifecycle_run empty_store ?cs"
    by (simp add: create_def update_status_def Let_def one_def update_where_id_def
        empty_store_def lax_env_def default_status_def unfinished_def non_terminal_def
        split: sum.splits)
  have st: "map row_status (rows (run ?cs)) = [SUCCESSFUL]"
    by (simp add: run_def create_def update_status_def save_successful_result_def Let_def
        one_def update_where_id_def empty_store_def lax_env_def default_status_def
        split: sum.splits)
  from lifecycle_keeps_row_invariant [OF lr] lr st show ?thesis
    by (simp add: list_all_iff)
qed

subsection \<open>Admin listing\<close>

lemma collect_map_Inr:
  "collect (map f xs) = Inr ys \<Longrightarrow> list_all2 (\<lambda>x y. f x = Inr y) xs ys"
proof (induction xs arbitrary: ys)
  case Nil
  then show ?case by simp
next
  case (Cons x xs)
  then show ?case
    by (auto split: sum.splits)
qed

lemma paginate_Inr:
  assumes "paginate e q page page_size mv = Inr resp"
  shows "0 \<le> (page - 1) * page_size \<and> 0 \<le> page_size \<and> db_raises e = None
       \<and> total_count resp = length q
       \<and> list_all2 (\<lambda>x y. mv x = Inr y)
            (take (nat page_size) (drop (nat ((page - 1) * page_size)) q)) (items resp)"
proof -
  have g: "db_raises e = None \<and> \<not> ((page - 1) * page_size < 0 \<or> page_size < 0)"
    using assms by (auto simp: paginate_def Let_def split: option.splits if_splits)
  then obtain xs where c: "collect (map mv (take (nat page_size)
        (drop (nat ((page - 1) * page_size)) q))) = Inr xs"
    and r: "resp = \<lparr> items = xs, total_count = length q, resp_page = page,
                      resp_page_size = page_size \<rparr>"
    using assms by (auto simp: paginate_def Let_def split: sum.splits)
  from collect_map_Inr [OF c] g r show ?thesis
    by simp
qed

lemma detail_created_at:
  "detail_model_validate e r = Inr d \<Longrightarrow> created_at d = row_created_at r"
  by (auto simp: detail_model_validate_def split: sum.splits)

lemma order_by_created_at_desc_sorted:
  "sorted_wrt (\<lambda>a b. row_created_at b \<le> row_created_at a) (order_by_created_at_desc rs)"
proof -
  have "sorted (map (\<lambda>r. - row_created_at r) (order_by_created_at_desc rs))"
    unfolding order_by_created_at_desc_def by (rule sorted_sort_key)
  then show ?thesis
    by (simp add: sorted_map)
qed

text \<open>
  C5. The items of a page that \<^verbatim>\<open>admin_pagination\<close> returns are detail projections
  of rows of the table, in an order in which \<^verbatim>\<open>created_at\<close> never increases from one
  item to the next; the total is the number of rows.
\<close>

theorem admin_pagination_newest_first:
  assumes "admin_pagination e s page page_size = Inr resp"
  shows "sorted_wrt (\<lambda>a b. created_at b \<le> created_at a) (items resp)
       \<and> (\<forall>d\<in>set (items resp). \<exists>r\<in>set (rows s). detail_model_validate e r = Inr d)
       \<and> total_count resp = length (rows s)"
proof -
  let ?q = "order_by_created_at_desc (rows s)"
  let ?w = "take (nat page_size) (drop (nat ((page - 1) * page_size)) ?q)"
  from paginate_Inr [OF assms [unfolded admin_pagination_def]]
  have tot: "total_count resp = length ?q"
    and rel: "list_all2 (\<lambda>x y. detail_model_validate e x = Inr y) ?w (items resp)"
    by simp_all
  have "sorted_wrt (\<lambda>a b. row_created_at b \<le> row_created_at a) ?w"
    by (intro sorted_wrt_take sorted_wrt_drop order_by_created_at_desc_sorted)
  then have "sorted_wrt (\<lambda>a b. b \<le> a) (map row_created_at ?w)"
    by (simp add: sorted_wrt_map)
  moreover have "map created_at (items resp) = map row_created_at ?w"
    using rel by (induction rule: list_all2_induct) (simp_all add: detail_created_at)
  ultimately have "sorted_wrt (\<lambda>a b. b \<le> a) (map created_at (items resp))"
    by simp
  then have srt: "sorted_wrt (\<lambda>a b. created_at b \<le> created_at a) (items resp)"
    by (simp add: sorted_wrt_map)
  have sub: "set ?w \<subseteq> set (rows s)"
  proof -
    have "set ?w \<subseteq> set (drop (nat ((page - 1) * page_size)) ?q)"
      by (rule set_take_subset)
    also have "\<dots> \<subseteq> set ?q"
      by (rule set_drop_subset)
    also have "\<dots> = set (rows s)"
      by (simp add: order_by_created_at_desc_def)
    finally show ?thesis .
  qed
  have "\<exists>r\<in>set (rows s). detail_model_validate e r = Inr d" if "d \<in> set (items resp)" for d
  proof -
    from that obtain k where k: "k < length (items resp)" "items resp ! k = d"
      by (auto simp: in_set_conv_nth)
    have "k < length ?w"
      using list_all2_lengthD [OF rel] k by simp
    moreover have "detail_model_validate e (?w ! k) = Inr d"
      using list_all2_nthD2 [OF rel k(1)] k(2) by simp
    ultimately have "?w ! k \<in> set ?w" "detail_model_validate e (?w ! k) = Inr d"
      by (simp_all only: nth_mem)
    then show ?thesis
      using sub nth_mem by blast
  qed
  with srt tot show ?thesis
    by (simp add: order_by_created_at_desc_def)
qed

lemma admin_pagination_busy:
  "admin_pagination (lax_env 9 False) busy_store 1 2 =
     Inr \<lparr> items =
             [\<lparr> request_id = 3, created_at = 7, updated_at = 7, status = PENDING,
                input_data = SimpleVkInputData VK_SIMPLE_DOWNLOAD ''https://vk.com/example'' 10,
                result_data = None, finished_at = None, error_message = None \<rparr>,
              \<lparr> request_id = 2, created_at = 5, updated_at = 8, status = PROCESSING,
                input_data = ParsePostsVkInputData VK_DOWNLOAD_AND_PARSED_POSTS
                  ''https://vk.com/example'' 100 20,
                result_data = None, finished_at = None, error_message = None \<rparr>],
           total_count = 3, resp_page = 1, resp_page_size = 2 \<rparr>"
proof -
  have f: "db_raises (lax_env 9 False) = None"
    by (simp add: lax_env_def)
  have two: "nat 2 = Suc (Suc 0)"
    by simp
  show ?thesis
    by (simp add: admin_pagination_def paginate_def Let_def f busy_store_eq two
        order_by_created_at_desc_def detail_model_validate_def validate_simple_payload
        validate_posts_payload)
qed

theorem admin_pagination_newest_first_witness:
  "map created_at (page_items (admin_pagination (lax_env 9 False) busy_store 1 2)) = [7, 5]
   \<and> sorted_wrt (\<lambda>a b. created_at b \<le> created_at a)
         (page_items (admin_pagination (lax_env 9 False) busy_store 1 2))"
  using admin_pagination_newest_first [OF admin_pagination_busy]
  by (simp add: page_items_def admin_pagination_busy)

subsection \<open>Public listing\<close>

lemma collect_summaries:
  "collect (map summary_model_validate xs) = Inr (map (projr \<circ> summary_model_validate) xs)"
  by (induction xs) (simp_all add: summary_model_validate_def)

lemma Inr_projr_summary:
  "map Inr (map (projr \<circ> summary_model_validate) xs) = map summary_model_validate xs"
  by (simp add: summary_model_validate_def)

lemma get_pagination_page:
  assumes "1 \<le> p" "1 \<le> k" "db_raises e = None"
  shows "get_pagination e scan s p k =
           Inr \<lparr> items = map (projr \<circ> summary_model_validate)
                            (take (nat k) (drop (nat ((p - 1) * k)) (scan (rows s)))),
                 total_count = length (scan (rows s)), resp_page = p, resp_page_size = k \<rparr>"
proof -
  have "0 \<le> (p - 1) * k"
    using assms by simp
  then have nn: "\<not> (p - 1) * k < 0"
    by (simp only: not_less)
  have kk: "\<not> k < 0"
    using assms by simp
  show ?thesis
    using assms(3) by (simp add: get_pagination_def paginate_def Let_def collect_summaries nn kk)
qed

lemma concat_chunks:
  "concat (map (\<lambda>j. take k (drop (j * k) xs)) [0..<n]) = take (n * k) xs"
proof (induction n)
  case 0
  then show ?case by simp
next
  case (Suc n)
  have "Suc n * k = n * k + k"
    by simp
  then have "take (Suc n * k) xs = take (n * k) xs @ take k (drop (n * k) xs)"
    by (simp only: take_add)
  with Suc show ?case by simp
qed

lemma upto_from_one: "[1..int n] = map (\<lambda>j. int j + 1) [0..<n]"
proof (induction n)
  case 0
  then show ?case by simp
next
  case (Suc n)
  have "[1..int (Suc n)] = [1..int n] @ [int n + 1]"
    using upto_rec2 [of 1 "int n + 1"] by (simp add: add.commute)
  with Suc show ?case by simp
qed

lemma page_count_covers:
  assumes "1 \<le> k"
  shows "0 \<le> page_count n k" "n \<le> nat (page_count n k) * nat k"
proof -
  let ?m = "int n + k - 1"
  show nonneg: "0 \<le> page_count n k"
    unfolding page_count_def using assms by (simp add: pos_imp_zdiv_nonneg_iff)
  have "?m = ?m div k * k + ?m mod k"
    by simp
  moreover have "?m mod k < k"
    using assms by simp
  ultimately have "int n \<le> ?m div k * k"
    by linarith
  then have "int n \<le> int (nat (page_count n k) * nat k)"
    using nonneg assms by (simp add: page_count_def)
  then show "n \<le> nat (page_count n k) * nat k"
    by linarith
qed

lemma scan_chunks:
  assumes "1 \<le> k"
  shows "concat (map (\<lambda>p. take (nat k) (drop (nat ((p - 1) * k)) xs))
           [1..page_count (length xs) k]) = xs"
proof -
  obtain n where pc: "page_count (length xs) k = int n"
    using page_count_covers(1) [OF assms, of "length xs"] by (auto dest: zero_le_imp_eq_int)
  have cover: "length xs \<le> n * nat k"
    using page_count_covers(2) [OF assms, of "length xs"] by (simp add: pc)
  have off: "nat (int j * k) = j * nat k" for j
    by (simp add: nat_mult_distrib)
  have "concat (map (\<lambda>p. take (nat k) (drop (nat ((p - 1) * k)) xs)) [1..int n])
        = concat (map (\<lambda>j. take (nat k) (drop (j * nat k) xs)) [0..<n])"
    unfolding upto_from_one by (simp add: comp_def off)
  also have "\<dots> = take (n * nat k) xs"
    by (rule concat_chunks)
  also have "\<dots> = xs"
    using cover by simp
  finally show ?thesis
    by (simp add: pc)
qed

lemma summary_ids:
  "map summary_id (map (projr \<circ> summary_model_validate) xs) = map row_id xs"
  by (simp add: summary_model_validate_def)

text \<open>
  The specification says that the pages of a scan, each fetched by a query of its own,
  hold every row once. The query of \<^verbatim>\<open>get_pagination\<close> has no order clause, so two page queries
  need not see the rows in the same order. With three rows and two rows a page, when
  the second query sees the rows rotated by one, the scan returns request 1 twice and
  request 3 never.
\<close>

theorem pagination_scan_counterexample:
  "is_scan (rotating 1) busy_store \<and> is_scan (rotating 2) busy_store
   \<and> map summary_id
         (concat (map (\<lambda>p. page_items (get_pagination (lax_env (10 + p) False) (rotating p)
                                         busy_store p 2))
                    [1..page_count (length (rows busy_store)) 2])) = [1, 2, 1]
   \<and> map row_id (rows busy_store) = [1, 2, 3]"
proof -
  have f: "db_raises (lax_env t False) = None" for t
    by (simp add: lax_env_def)
  have two: "nat 2 = Suc (Suc 0)"
    by simp
  have pc: "page_count (length (rows busy_store)) 2 = 2"
    by (simp add: page_count_def busy_store_eq)
  have up: "[1..2::int] = [1, 2]"
    by (simp add: upto.simps)
  have p1: "map summary_id (page_items (get_pagination (lax_env (10 + 1) False) (rotating 1)
              busy_store 1 2)) = [1, 2]"
    by (simp add: get_pagination_def paginate_def Let_def f two busy_store_eq page_items_def
        summary_model_validate_def rotating_def)
  have p2: "map summary_id (page_items (get_pagination (lax_env (10 + 2) False) (rotating 2)
              busy_store 2 2)) = [1]"
    by (simp add: get_pagination_def paginate_def Let_def f two busy_store_eq page_items_def
        summary_model_validate_def rotating_def)
  have rot: "mset (rotate1 xs) = mset xs" for xs :: "ParserRequestDb list"
    by (cases xs) simp_all
  have "is_scan (rotating 1) busy_store" "is_scan (rotating 2) busy_store"
    by (simp_all add: is_scan_def rotating_def rot)
  moreover have "map row_id (rows busy_store) = [1, 2, 3]"
    by (simp add: busy_store_eq)
  ultimately show ?thesis
    unfolding pc up using p1 p2 by simp
qed

text \<open>
  C8. For a table of \<open>N\<close> rows and a page size \<open>k\<close> of at least 1, on a database that
  works: page \<open>p\<close> of \<^verbatim>\<open>get_pagination\<close> holds the summaries of the rows at offset
  \<open>(p - 1) * k\<close>, at most \<open>k\<close> of them, in the order in which the database returns the
  rows, and reports the total \<open>N\<close>. When the database returns the rows in one and the
  same order for every page of the scan, the pages 1 to \<open>N / k\<close> rounded up, one after
  the other, are the summaries of the rows in that order, and they hold each of the
  \<open>N\<close> rows exactly once.
\<close>

theorem pagination_scan_complete:
  assumes k: "1 \<le> k" and nf: "\<forall>p. db_raises (e p) = None" and sc: "is_scan scan s"
  shows "(\<forall>p\<in>{1..page_count (length (rows s)) k}.
            \<exists>resp. get_pagination (e p) scan s p k = Inr resp
                 \<and> total_count resp = length (rows s)
                 \<and> map Inr (items resp) =
                     map summary_model_validate
                       (take (nat k) (drop (nat ((p - 1) * k)) (scan (rows s)))))
       \<and> map Inr (concat (map (\<lambda>p. page_items (get_pagination (e p) scan s p k))
                             [1..page_count (length (rows s)) k]))
           = map summary_model_validate (scan (rows s))
       \<and> mset (map summary_id (concat (map (\<lambda>p. page_items (get_pagination (e p) scan s p k))
                                          [1..page_count (length (rows s)) k])))
           = mset (map row_id (rows s))"
proof -
  let ?q = "scan (rows s)"
  let ?ps = "[1..page_count (length (rows s)) k]"
  let ?chunk = "\<lambda>p. take (nat k) (drop (nat ((p - 1) * k)) ?q)"
  let ?sm = "projr \<circ> summary_model_validate"
  have perm: "mset ?q = mset (rows s)"
    using sc by (simp add: is_scan_def)
  then have len: "length ?q = length (rows s)"
    by (rule mset_eq_length)
  have page: "get_pagination (e p) scan s p k =
           Inr \<lparr> items = map ?sm (?chunk p), total_count = length (rows s),
                 resp_page = p, resp_page_size = k \<rparr>" if "1 \<le> p" for p
    using get_pagination_page [OF that k, of "e p" scan s] nf len by simp
  have each: "\<forall>p\<in>{1..page_count (length (rows s)) k}.
            \<exists>resp. get_pagination (e p) scan s p k = Inr resp
                 \<and> total_count resp = length (rows s)
                 \<and> map Inr (items resp) = map summary_model_validate (?chunk p)"
    using page by (simp add: summary_model_validate_def)
  have "map (\<lambda>p. page_items (get_pagination (e p) scan s p k)) ?ps =
        map (\<lambda>p. map ?sm (?chunk p)) ?ps"
    by (rule map_cong) (simp_all add: page page_items_def)
  then have "concat (map (\<lambda>p. page_items (get_pagination (e p) scan s p k)) ?ps)
        = concat (map (\<lambda>p. map ?sm (?chunk p)) ?ps)"
    by (rule arg_cong)
  also have "\<dots> = map ?sm (concat (map ?chunk ?ps))"
    by (simp add: map_concat comp_def)
  also have "concat (map ?chunk ?ps) = ?q"
    using scan_chunks [OF k, of ?q] unfolding len .
  finally have all: "concat (map (\<lambda>p. page_items (get_pagination (e p) scan s p k)) ?ps)
        = map ?sm ?q" .
  have "map Inr (map ?sm ?q) = map summary_model_validate ?q"
    by (rule Inr_projr_summary)
  moreover have "mset (map summary_id (map ?sm ?q)) = mset (map row_id (rows s))"
    unfolding summary_ids using perm by (metis mset_map)
  ultimately show ?thesis
    using each unfolding all by blast
qed

theorem pagination_scan_complete_witness:
  "is_scan updated_last busy_store
   \<and> page_count (length (rows busy_store)) 2 = 2
   \<and> map summary_id
         (page_items (get_pagination (lax_env 11 False) updated_last busy_store 1 2)) = [1, 3]
   \<and> map summary_id
         (page_items (get_pagination (lax_env 12 False) updated_last busy_store 2 2)) = [2]
   \<and> mset (map summary_id
         (concat (map (\<lambda>p. page_items (get_pagination (lax_env (10 + p) False) updated_last
                                         busy_store p 2))
                    [1..page_count (length (rows busy_store)) 2]))) = mset [1, 2, 3]"
proof -
  have nf: "\<forall>p. db_raises (lax_env (10 + p) False) = None"
    by (simp add: lax_env_def)
  have f: "db_raises (lax_env t False) = None" for t
    by (simp add: lax_env_def)
  have two: "nat 2 = Suc (Suc 0)"
    by simp
  have sc: "is_scan updated_last busy_store"
    by (simp add: is_scan_def updated_last_def busy_store_eq)
  have pc: "page_count (length (rows busy_store)) 2 = 2"
    by (simp add: page_count_def busy_store_eq)
  have p1: "map summary_id
      (page_items (get_pagination (lax_env 11 False) updated_last busy_store 1 2)) = [1, 3]"
    by (simp add: get_pagination_def paginate_def Let_def f two busy_store_eq page_items_def
        summary_model_validate_def updated_last_def)
  have p2: "map summary_id
      (page_items (get_pagination (lax_env 12 False) updated_last busy_store 2 2)) = [2]"
    by (simp add: get_pagination_def paginate_def Let_def f two busy_store_eq page_items_def
        summary_model_validate_def updated_last_def)
  have ids: "map row_id (rows busy_store) = [1, 2, 3]"
    by (simp add: busy_store_eq)
  have "(1::int) \<le> 2"
    by simp
  from pagination_scan_complete [OF this nf sc] sc pc p1 p2 show ?thesis
    unfolding ids by simp
qed

subsection \<open>Statistics\<close>

lemma group_by_status_member:
  "(st, c) \<in> set (group_by_status ord rs) \<Longrightarrow>
     c = length (filter (\<lambda>r. row_status r = st) rs) \<and> 0 < c"
  by (auto simp: group_by_status_def)

lemma filter_once:
  "distinct xs \<Longrightarrow>
     length (filter (\<lambda>x. x = st \<and> P x) xs) = (if st \<in> set xs \<and> P st then 1 else 0)"
  by (induction xs) auto

lemma group_by_status_once:
  assumes "distinct ord"
  shows "length (filter (\<lambda>(st', c). st' = st) (group_by_status ord rs)) =
           (if st \<in> set ord \<and> (\<exists>r\<in>set rs. row_status r = st) then 1 else 0)"
proof -
  let ?n = "\<lambda>st. length (filter (\<lambda>r. row_status r = st) rs)"
  have pos: "0 < ?n st \<longleftrightarrow> (\<exists>r\<in>set rs. row_status r = st)"
    by (simp add: filter_empty_conv)
  have "filter (\<lambda>(st', c). st' = st) (group_by_status ord rs) =
          map (\<lambda>st. (st, ?n st)) (filter (\<lambda>x. x = st \<and> 0 < ?n x) ord)"
    unfolding group_by_status_def
    by (simp add: filter_map comp_def conj_commute)
  then have "length (filter (\<lambda>(st', c). st' = st) (group_by_status ord rs)) =
          length (filter (\<lambda>x. x = st \<and> 0 < ?n x) ord)"
    by simp
  also have "\<dots> = (if st \<in> set ord \<and> 0 < ?n st then 1 else 0)"
    by (rule filter_once [OF assms])
  finally show ?thesis
    unfolding pos .
qed

lemma sum_list_drop_zero:
  "sum_list (map snd (filter (\<lambda>(st, c). 0 < c) (map (\<lambda>st. (st, f st)) xs))) =
     sum_list (map f xs)"
  for f :: "'a \<Rightarrow> nat"
  by (induction xs) auto

lemma sum_list_indicator:
  "distinct xs \<Longrightarrow> x \<in> set xs \<Longrightarrow> sum_list (map (\<lambda>y. if x = y then 1 else 0) xs) = (1::nat)"
proof (induction xs)
  case Nil
  then show ?case by simp
next
  case (Cons a xs)
  show ?case
  proof (cases "x = a")
    case True
    then have "x \<notin> set xs"
      using Cons.prems by simp
    then have "sum_list (map (\<lambda>y. if x = y then 1 else 0) xs) = (0::nat)"
      by (induction xs) auto
    with True show ?thesis by simp
  next
    case False
    with Cons show ?thesis by simp
  qed
qed

lemma count_by_status_total:
  assumes "distinct ord" "set ord = UNIV"
  shows "sum_list (map (\<lambda>st. length (filter (\<lambda>r. row_status r = st) rs)) ord) = length rs"
proof (induction rs)
  case Nil
  then show ?case by simp
next
  case (Cons r rs)
  have "sum_list (map (\<lambda>st. length (filter (\<lambda>r. row_status r = st) (r # rs))) ord) =
        sum_list (map (\<lambda>st. (if row_status r = st then 1 else 0)
                        + length (filter (\<lambda>r. row_status r = st) rs)) ord)"
    by (rule arg_cong [where f = sum_list]) (rule map_cong, simp_all)
  also have "\<dots> = sum_list (map (\<lambda>st. if row_status r = st then 1 else 0) ord)
                 + sum_list (map (\<lambda>st. length (filter (\<lambda>r. row_status r = st) rs)) ord)"
    by (rule sum_list_addf)
  also have "\<dots> = 1 + length rs"
    using sum_list_indicator [OF assms(1), of "row_status r"] assms(2) Cons.IH by simp
  finally show ?case by simp
qed

lemma group_by_status_total:
  assumes "distinct ord" "set ord = UNIV"
  shows "sum_list (map snd (group_by_status ord rs)) = length rs"
  unfolding group_by_status_def sum_list_drop_zero
  by (rule count_by_status_total [OF assms])

lemma tag_filter_type:
  "filter (\<lambda>(p, st, c). p = pt) (map (\<lambda>(st, c). (pt', st, c)) xs) =
     (if pt = pt' then map (\<lambda>(st, c). (pt', st, c)) xs else [])"
  by (induction xs) auto

lemma tag_filter_pair:
  "length (filter (\<lambda>(p, st', c). p = pt \<and> st' = st) (map (\<lambda>(st, c). (pt', st, c)) xs)) =
     (if pt = pt' then length (filter (\<lambda>(st', c). st' = st) xs) else 0)"
  by (induction xs) auto

lemma tag_sum:
  "sum_list (map (\<lambda>(p, st, c). c) (map (\<lambda>(st, c). (pt', st, c)) xs)) = sum_list (map snd xs)"
  for xs :: "(RequestStatus \<times> nat) list"
  by (induction xs) auto

lemma stat_Inr:
  assumes "\<forall>pt. db_raises (e pt) = None"
  shows "stat e ord s =
     Inr (map (\<lambda>(st, c). (VK_SIMPLE_DOWNLOAD, st, c))
            (group_by_status (ord VK_SIMPLE_DOWNLOAD)
               (filter (has_type VK_SIMPLE_DOWNLOAD) (rows s)))
        @ map (\<lambda>(st, c). (VK_DOWNLOAD_AND_PARSED_POSTS, st, c))
            (group_by_status (ord VK_DOWNLOAD_AND_PARSED_POSTS)
               (filter (has_type VK_DOWNLOAD_AND_PARSED_POSTS) (rows s))))"
  using assms by (simp add: stat_def ParserTypes_members_def stat_by_type_def)

lemma stat_Inl:
  assumes "db_raises (e pt) \<noteq> None"
  shows "\<exists>pt err. db_raises (e pt) = Some err \<and> stat e ord s = Inl err"
proof (cases "db_raises (e VK_SIMPLE_DOWNLOAD)")
  case (Some err)
  then have "stat e ord s = Inl err"
    by (simp add: stat_def ParserTypes_members_def stat_by_type_def)
  with Some show ?thesis by blast
next
  case None
  then have "pt = VK_DOWNLOAD_AND_PARSED_POSTS"
    using assms by (cases pt) simp_all
  then obtain err where err: "db_raises (e VK_DOWNLOAD_AND_PARSED_POSTS) = Some err"
    using assms by auto
  then have "stat e ord s = Inl err"
    using None by (simp add: stat_def ParserTypes_members_def stat_by_type_def)
  with err show ?thesis by blast
qed

text \<open>
  C3. Whatever order the database returns the status groups in: when a sub-query fails,
  \<^verbatim>\<open>stat\<close> ends with the exception of a sub-query that failed, whatever its class,
  and returns no partial result. Otherwise it
  returns a list that holds, for each parser type and status, exactly one triple when a
  row of that type has that status and none when no row has; the count of a triple is
  the number of such rows; for each type the counts add up to the number of rows of that
  type; and the list is the concatenation of its triples of each type in the order of
  the enumeration.
\<close>

theorem stat_complete:
  assumes ord: "\<forall>pt. distinct (ord pt) \<and> set (ord pt) = UNIV"
  shows "((\<exists>pt. db_raises (e pt) \<noteq> None) \<longrightarrow>
            (\<exists>pt err. db_raises (e pt) = Some err \<and> stat e ord s = Inl err))
       \<and> ((\<forall>pt. db_raises (e pt) = None) \<longrightarrow>
            (\<exists>out. stat e ord s = Inr out
               \<and> (\<forall>pt st. length (filter (\<lambda>(p, st', c). p = pt \<and> st' = st) out) =
                     (if \<exists>r\<in>set (rows s). has_type pt r \<and> row_status r = st then 1 else 0))
               \<and> (\<forall>pt st c. (pt, st, c) \<in> set out \<longrightarrow>
                     c = length (filter (\<lambda>r. has_type pt r \<and> row_status r = st) (rows s))
                     \<and> 0 < c)
               \<and> (\<forall>pt. sum_list (map (\<lambda>(p, st, c). c) (filter (\<lambda>(p, st, c). p = pt) out)) =
                     length (filter (has_type pt) (rows s)))
               \<and> out = concat (map (\<lambda>pt. filter (\<lambda>(p, st, c). p = pt) out)
                                   ParserTypes_members)))"
proof (intro conjI impI)
  assume "\<exists>pt. db_raises (e pt) \<noteq> None"
  then show "\<exists>pt err. db_raises (e pt) = Some err \<and> stat e ord s = Inl err"
    using stat_Inl by blast
next
  assume nf: "\<forall>pt. db_raises (e pt) = None"
  let ?G = "\<lambda>pt. group_by_status (ord pt) (filter (has_type pt) (rows s))"
  let ?T = "\<lambda>pt. map (\<lambda>(st, c). (pt, st, c)) (?G pt)"
  let ?out = "?T VK_SIMPLE_DOWNLOAD @ ?T VK_DOWNLOAD_AND_PARSED_POSTS"
  have out: "stat e ord s = Inr ?out"
    by (rule stat_Inr [OF nf])
  have part: "filter (\<lambda>(p, st, c). p = pt) ?out = ?T pt" for pt
    by (cases pt) (simp_all add: tag_filter_type)
  have once: "length (filter (\<lambda>(p, st', c). p = pt \<and> st' = st) ?out) =
      (if \<exists>r\<in>set (rows s). has_type pt r \<and> row_status r = st then 1 else 0)" for pt st
  proof -
    have "length (filter (\<lambda>(p, st', c). p = pt \<and> st' = st) ?out) =
          length (filter (\<lambda>(st', c). st' = st) (?G pt))"
      by (cases pt) (simp_all only: filter_append length_append tag_filter_pair, simp_all)
    also have "\<dots> = (if st \<in> set (ord pt)
                          \<and> (\<exists>r\<in>set (filter (has_type pt) (rows s)). row_status r = st)
                        then 1 else 0)"
      using ord by (intro group_by_status_once) simp
    finally have len: "length (filter (\<lambda>(p, st', c). p = pt \<and> st' = st) ?out) =
        (if st \<in> set (ord pt)
            \<and> (\<exists>r\<in>set (filter (has_type pt) (rows s)). row_status r = st)
         then 1 else 0)" .
    have eq: "(st \<in> set (ord pt)
                \<and> (\<exists>r\<in>set (filter (has_type pt) (rows s)). row_status r = st))
              \<longleftrightarrow> (\<exists>r\<in>set (rows s). has_type pt r \<and> row_status r = st)"
      using ord by auto
    show ?thesis
      unfolding len eq ..
  qed
  have mem: "c = length (filter (\<lambda>r. has_type pt r \<and> row_status r = st) (rows s)) \<and> 0 < c"
    if "(pt, st, c) \<in> set ?out" for pt st c
  proof -
    have "(pt, st, c) \<in> set (?T pt)"
      using that unfolding part [of pt, symmetric] by simp
    then have "(st, c) \<in> set (?G pt)"
      by auto
    note m = group_by_status_member [OF this]
    have "c = length (filter (\<lambda>r. row_status r = st) (filter (has_type pt) (rows s)))"
      using m by (rule conjunct1)
    then have "c = length (filter (\<lambda>r. has_type pt r \<and> row_status r = st) (rows s))"
      by (simp only: filter_filter)
    moreover have "0 < c"
      using m by (rule conjunct2)
    ultimately show ?thesis
      by (rule conjI)
  qed
  have total: "sum_list (map (\<lambda>(p, st, c). c) (filter (\<lambda>(p, st, c). p = pt) ?out)) =
      length (filter (has_type pt) (rows s))" for pt
    unfolding part tag_sum using ord by (intro group_by_status_total) simp_all
  have grouped: "?out = concat (map (\<lambda>pt. filter (\<lambda>(p, st, c). p = pt) ?out)
                                  ParserTypes_members)"
    unfolding part by (simp add: ParserTypes_members_def)
  show "\<exists>out. stat e ord s = Inr out
               \<and> (\<forall>pt st. length (filter (\<lambda>(p, st', c). p = pt \<and> st' = st) out) =
                     (if \<exists>r\<in>set (rows s). has_type pt r \<and> row_status r = st then 1 else 0))
               \<and> (\<forall>pt st c. (pt, st, c) \<in> set out \<longrightarrow>
                     c = length (filter (\<lambda>r. has_type pt r \<and> row_status r = st) (rows s))
                     \<and> 0 < c)
               \<and> (\<forall>pt. sum_list (map (\<lambda>(p, st, c). c) (filter (\<lambda>(p, st, c). p = pt) out)) =
                     length (filter (has_type pt) (rows s)))
               \<and> out = concat (map (\<lambda>pt. filter (\<lambda>(p, st, c). p = pt) out)
                                   ParserTypes_members)"
    using out once mem total grouped by blast
qed

lemma all_statuses_ok: "distinct all_statuses \<and> set all_statuses = UNIV"
proof -
  have "x \<in> set all_statuses" for x
    by (cases x) (simp_all add: all_statuses_def)
  then have "set all_statuses = UNIV"
    by auto
  then show ?thesis
    by (simp add: all_statuses_def)
qed

lemma stat_busy:
  "stat (\<lambda>pt. lax_env 9 False) (\<lambda>pt. all_statuses) busy_store =
     Inr [(VK_SIMPLE_DOWNLOAD, PENDING, 2), (VK_DOWNLOAD_AND_PARSED_POSTS, PROCESSING, 1)]"
proof -
  have f: "db_raises (lax_env 9 False) = None"
    by (simp add: lax_env_def)
  show ?thesis
    by (simp add: stat_def stat_by_type_def ParserTypes_members_def f group_by_status_def
        has_type_def astext_def busy_store_eq simple_payload_def posts_payload_def
        all_statuses_def)
qed

theorem stat_complete_witness:
  "distinct all_statuses
   \<and> stat (\<lambda>pt. lax_env 9 False) (\<lambda>pt. all_statuses) busy_store =
       Inr [(VK_SIMPLE_DOWNLOAD, PENDING, 2), (VK_DOWNLOAD_AND_PARSED_POSTS, PROCESSING, 1)]
   \<and> length (filter (has_type VK_SIMPLE_DOWNLOAD) (rows busy_store)) = 2
   \<and> stat (\<lambda>pt. lax_env 9 (pt = VK_DOWNLOAD_AND_PARSED_POSTS)) (\<lambda>pt. all_statuses) busy_store =
       Inl DBAPIError"
proof -
  have ord: "\<forall>pt. distinct ((\<lambda>pt. all_statuses) pt) \<and> set ((\<lambda>pt. all_statuses) pt) = UNIV"
    using all_statuses_ok by simp
  have t: "\<exists>pt. db_raises (lax_env 9 (pt = VK_DOWNLOAD_AND_PARSED_POSTS)) \<noteq> None"
    by (auto simp: lax_env_def)
  have only: "err = DBAPIError" if "db_raises (lax_env 9 b) = Some err" for b err
    using that by (simp add: lax_env_def split: if_splits)
  have nf: "\<forall>pt::ParserTypes. db_raises (lax_env 9 False) = None"
    by (simp add: lax_env_def)
  from stat_complete [OF ord, of "\<lambda>pt. lax_env 9 (pt = VK_DOWNLOAD_AND_PARSED_POSTS)" busy_store] t
  obtain pt err where "db_raises (lax_env 9 (pt = VK_DOWNLOAD_AND_PARSED_POSTS)) = Some err"
    and "stat (\<lambda>pt. lax_env 9 (pt = VK_DOWNLOAD_AND_PARSED_POSTS)) (\<lambda>pt. all_statuses)
           busy_store = Inl err"
    by blast
  then have fail: "stat (\<lambda>pt. lax_env 9 (pt = VK_DOWNLOAD_AND_PARSED_POSTS)) (\<lambda>pt. all_statuses)
                busy_store = Inl DBAPIError"
    using only by blast
  from stat_complete [OF ord, of "\<lambda>pt. lax_env 9 False" busy_store] nf
  obtain out where o: "stat (\<lambda>pt. lax_env 9 False) (\<lambda>pt. all_statuses) busy_store = Inr out"
    and tot: "\<forall>pt. sum_list (map (\<lambda>(p, st, c). c) (filter (\<lambda>(p, st, c). p = pt) out)) =
                length (filter (has_type pt) (rows busy_store))"
    by blast
  have "out = [(VK_SIMPLE_DOWNLOAD, PENDING, 2), (VK_DOWNLOAD_AND_PARSED_POSTS, PROCESSING, 1)]"
    using o stat_busy by simp
  with tot [rule_format, of VK_SIMPLE_DOWNLOAD]
  have "length (filter (has_type VK_SIMPLE_DOWNLOAD) (rows busy_store)) = 2"
    by simp
  with fail stat_busy all_statuses_ok show ?thesis
    by simp
qed

end
